theory Spec2Isabelle
  imports Complex_Main
begin

section \<open>Python values used by the mesh generator\<close>

text \<open>
  The program is \<^verbatim>\<open>src/main.py\<close>. Its two mesh functions are
  \<^verbatim>\<open>process_vertices\<close> (the cylindrical projector) and
  \<^verbatim>\<open>process_faces\<close> (the topology builder).

  Python integers are modelled by \<^typ>\<open>int\<close>. Python floats are modelled by
  \<^typ>\<open>real\<close>: every result below is about exact real arithmetic, with
  \<^term>\<open>pi\<close>, \<^term>\<open>cos\<close>, \<^term>\<open>sin\<close> and \<^term>\<open>sqrt\<close> the
  mathematical functions. Rounding, overflow, underflow and NaN of IEEE doubles
  are outside the model, and so is the progress output written to the console.
\<close>

datatype error = ZeroDivisionError | ValueError | IndexError

type_synonym vec3 = "real \<times> real \<times> real"
type_synonym vec2 = "real \<times> real"
type_synonym arrays = "vec3 list \<times> vec2 list \<times> vec3 list"
type_synonym face = "int \<times> int \<times> int"

text \<open>\<^verbatim>\<open>PIXEL_SIZE = 0.019\<close>\<close>

definition PIXEL_SIZE :: real where
  "PIXEL_SIZE = 19 / 1000"

text \<open>\<^verbatim>\<open>range(n)\<close>: the integers \<open>0, 1, ..., n - 1\<close>, empty when \<open>n \<le> 0\<close>.\<close>

definition py_range :: "int \<Rightarrow> int list" where
  "py_range n = map int [0..<nat n]"

text \<open>True division \<^verbatim>\<open>a / b\<close>: raises \<^verbatim>\<open>ZeroDivisionError\<close> on a zero divisor.\<close>

definition truediv :: "real \<Rightarrow> real \<Rightarrow> error + real" where
  "truediv a b = (if b = 0 then Inl ZeroDivisionError else Inr (a / b))"

text \<open>\<^verbatim>\<open>math.sqrt(a)\<close>: raises \<^verbatim>\<open>ValueError\<close> on a negative argument.\<close>

definition math_sqrt :: "real \<Rightarrow> error + real" where
  "math_sqrt a = (if a < 0 then Inl ValueError else Inr (sqrt a))"

text \<open>
  The height map is a two-dimensional array: its \<^verbatim>\<open>shape\<close> \<open>(height, width)\<close> and
  its items. \<^verbatim>\<open>heightmap[y, x]\<close> counts a negative index from the end and raises
  \<^verbatim>\<open>IndexError\<close> outside the shape.
\<close>

record heightmap =
  shape :: "int \<times> int"
  item :: "int \<Rightarrow> int \<Rightarrow> real"

definition getitem :: "heightmap \<Rightarrow> int \<Rightarrow> int \<Rightarrow> error + real" where
  "getitem heightmap y x =
     (case shape heightmap of (height, width) \<Rightarrow>
        let y' = (if y < 0 then y + height else y);
            x' = (if x < 0 then x + width else x)
        in if 0 \<le> y' \<and> y' < height \<and> 0 \<le> x' \<and> x' < width
           then Inr (item heightmap y' x')
           else Inl IndexError)"

section \<open>The cylindrical projector: \<^verbatim>\<open>process_vertices\<close>\<close>

text \<open>
  The body of the inner loop for the cell \<open>(y, x)\<close> first assigns its local variables.
  \<open>cell_vars\<close> holds their values when the three \<^verbatim>\<open>append\<close> calls are reached;
  the field \<open>var_length\<close> is the local \<^verbatim>\<open>length\<close>. The exponent \<^verbatim>\<open>** 2\<close> is the
  square. The guard \<^verbatim>\<open>if length > 0\<close> protects the division by \<^verbatim>\<open>length\<close>.
\<close>

record cell_vars =
  var_theta :: real
  var_world_z :: real
  var_base_x :: real
  var_base_y :: real
  var_length :: real
  var_depth_offset :: real
  var_adjusted_x :: real
  var_adjusted_y :: real

definition cell_body ::
  "heightmap \<Rightarrow> real \<Rightarrow> real \<Rightarrow> int \<Rightarrow> int \<Rightarrow> int \<Rightarrow> int \<Rightarrow> error + cell_vars" where
  "cell_body heightmap radius max_depth height width y x =
     (case truediv (of_int x * (2 * pi)) (of_int (width - 1)) of
        Inl e \<Rightarrow> Inl e
      | Inr theta \<Rightarrow>
     (case truediv (of_int y) (of_int (height - 1)) of
        Inl e \<Rightarrow> Inl e
      | Inr q \<Rightarrow>
     (let world_z = q * (of_int height * PIXEL_SIZE);
          base_x = radius * cos theta;
          base_y = radius * sin theta;
          center_x = 0;
          center_y = 0;
          vector_x = base_x - center_x;
          vector_y = base_y - center_y
      in
     (case math_sqrt (vector_x ^ 2 + vector_y ^ 2) of
        Inl e \<Rightarrow> Inl e
      | Inr length_v \<Rightarrow>
     (case getitem heightmap y x of
        Inl e \<Rightarrow> Inl e
      | Inr g \<Rightarrow>
     (let depth_offset = g * max_depth
      in
     (case (if length_v > 0
            then (case truediv (radius - depth_offset) length_v of
                    Inl e \<Rightarrow> Inl e
                  | Inr scale \<Rightarrow>
                      Inr (center_x + vector_x * scale, center_y + vector_y * scale))
            else Inr (base_x, base_y)) of
        Inl e \<Rightarrow> Inl e
      | Inr (adjusted_x, adjusted_y) \<Rightarrow>
          Inr \<lparr>var_theta = theta, var_world_z = world_z,
               var_base_x = base_x, var_base_y = base_y,
               var_length = length_v, var_depth_offset = depth_offset,
               var_adjusted_x = adjusted_x, var_adjusted_y = adjusted_y\<rparr>)))))))"

text \<open>
  The three \<^verbatim>\<open>append\<close> calls that end the body. The texture coordinates divide by
  \<^verbatim>\<open>width - 1\<close> and \<^verbatim>\<open>height - 1\<close> once more.
\<close>

definition cell ::
  "heightmap \<Rightarrow> real \<Rightarrow> real \<Rightarrow> int \<Rightarrow> int \<Rightarrow> int \<Rightarrow> int \<Rightarrow> arrays \<Rightarrow> error + arrays" where
  "cell heightmap radius max_depth height width y x acc =
     (case acc of (vertices, uvs, normals) \<Rightarrow>
     (case cell_body heightmap radius max_depth height width y x of
        Inl e \<Rightarrow> Inl e
      | Inr s \<Rightarrow>
     (case truediv (of_int x) (of_int (width - 1)) of
        Inl e \<Rightarrow> Inl e
      | Inr u \<Rightarrow>
     (case truediv (of_int y) (of_int (height - 1)) of
        Inl e \<Rightarrow> Inl e
      | Inr v \<Rightarrow>
          Inr (vertices @ [(var_adjusted_x s, var_adjusted_y s, var_world_z s)],
               uvs @ [(u, v)],
               normals @ [(cos (var_theta s), sin (var_theta s), 0)])))))"

text \<open>\<^verbatim>\<open>for x in range(width): ...\<close> An exception leaves the loop at once.\<close>

primrec inner_loop ::
  "heightmap \<Rightarrow> real \<Rightarrow> real \<Rightarrow> int \<Rightarrow> int \<Rightarrow> int \<Rightarrow> int list \<Rightarrow> arrays \<Rightarrow> error + arrays" where
  "inner_loop heightmap radius max_depth height width y [] acc = Inr acc"
| "inner_loop heightmap radius max_depth height width y (x # xs) acc =
     (case cell heightmap radius max_depth height width y x acc of
        Inl e \<Rightarrow> Inl e
      | Inr acc' \<Rightarrow> inner_loop heightmap radius max_depth height width y xs acc')"

text \<open>\<^verbatim>\<open>for y in range(height): ...\<close>\<close>

primrec outer_loop ::
  "heightmap \<Rightarrow> real \<Rightarrow> real \<Rightarrow> int \<Rightarrow> int \<Rightarrow> int list \<Rightarrow> arrays \<Rightarrow> error + arrays" where
  "outer_loop heightmap radius max_depth height width [] acc = Inr acc"
| "outer_loop heightmap radius max_depth height width (y # ys) acc =
     (case inner_loop heightmap radius max_depth height width y (py_range width) acc of
        Inl e \<Rightarrow> Inl e
      | Inr acc' \<Rightarrow> outer_loop heightmap radius max_depth height width ys acc')"

definition process_vertices :: "heightmap \<Rightarrow> real \<Rightarrow> real \<Rightarrow> error + arrays" where
  "process_vertices heightmap radius max_depth =
     (case shape heightmap of (height, width) \<Rightarrow>
        outer_loop heightmap radius max_depth height width (py_range height) ([], [], []))"

section \<open>The topology builder: \<^verbatim>\<open>process_faces\<close>\<close>

definition process_faces :: "int \<Rightarrow> int \<Rightarrow> face list" where
  "process_faces height width =
     (let faces = [];
          faces =
            fold (\<lambda>y. fold (\<lambda>x faces.
                    let v0 = y * width + x;
                        v1 = v0 + 1;
                        v2 = v0 + width;
                        v3 = v2 + 1;
                        faces = faces @ [(v0, v1, v3)];
                        faces = faces @ [(v0, v3, v2)]
                    in faces) (py_range (width - 1)))
              (py_range (height - 1)) faces;
          faces =
            fold (\<lambda>y faces.
                    let v0 = y * width + (width - 1);
                        v1 = y * width;
                        v2 = (y + 1) * width + (width - 1);
                        v3 = (y + 1) * width;
                        faces = faces @ [(v0, v1, v3)];
                        faces = faces @ [(v0, v3, v2)]
                    in faces)
              (py_range (height - 1)) faces
      in faces)"

section \<open>The specification's formulas\<close>

text \<open>
  The definitions of this section are not taken from the code. They write down the
  closed forms that the specification gives for the outputs; the theorems compare the
  code with them.
\<close>

text \<open>The two triangles of the interior quad whose upper left corner is the cell \<open>(y, x)\<close>.\<close>

definition quad_faces :: "int \<Rightarrow> int \<Rightarrow> int \<Rightarrow> face list" where
  "quad_faces W y x =
     (let v0 = y * W + x; v1 = v0 + 1; v2 = v0 + W; v3 = v2 + 1
      in [(v0, v1, v3), (v0, v3, v2)])"

text \<open>The two triangles of the seam quad of row \<open>y\<close>, from column \<open>W - 1\<close> back to column \<open>0\<close>.\<close>

definition seam_faces :: "int \<Rightarrow> int \<Rightarrow> face list" where
  "seam_faces W y =
     (let v0 = y * W + (W - 1); v1 = y * W; v2 = (y + 1) * W + (W - 1); v3 = (y + 1) * W
      in [(v0, v1, v3), (v0, v3, v2)])"

text \<open>
  The ordered triangle list of the specification: the interior quads for \<open>y\<close> in
  \<open>[0, H - 2]\<close> and \<open>x\<close> in \<open>[0, W - 2]\<close>, row by row, then the seam quads for \<open>y\<close> in
  \<open>[0, H - 2]\<close>.
\<close>

definition faces_spec :: "int \<Rightarrow> int \<Rightarrow> face list" where
  "faces_spec H W =
     concat (map (\<lambda>y. concat (map (\<lambda>x. quad_faces W y x) [0..W - 2])) [0..H - 2])
     @ concat (map (\<lambda>y. seam_faces W y) [0..H - 2])"

text \<open>The angle and the axial position of a cell.\<close>

definition theta_at :: "int \<Rightarrow> int \<Rightarrow> real" where
  "theta_at W x = of_int x * (2 * pi) / of_int (W - 1)"

definition world_z_at :: "int \<Rightarrow> int \<Rightarrow> real" where
  "world_z_at H y = of_int y / of_int (H - 1) * (of_int H * PIXEL_SIZE)"

text \<open>The values of the local variables of the loop body at the cell \<open>(y, x)\<close>.\<close>

definition vars_at ::
  "heightmap \<Rightarrow> real \<Rightarrow> real \<Rightarrow> int \<Rightarrow> int \<Rightarrow> int \<Rightarrow> int \<Rightarrow> cell_vars" where
  "vars_at heightmap radius max_depth H W y x =
     (let theta = theta_at W x;
          base_x = radius * cos theta;
          base_y = radius * sin theta;
          length_v = sqrt (base_x ^ 2 + base_y ^ 2);
          depth_offset = item heightmap y x * max_depth
      in \<lparr>var_theta = theta, var_world_z = world_z_at H y,
          var_base_x = base_x, var_base_y = base_y,
          var_length = length_v, var_depth_offset = depth_offset,
          var_adjusted_x =
            (if length_v > 0 then base_x * ((radius - depth_offset) / length_v) else base_x),
          var_adjusted_y =
            (if length_v > 0 then base_y * ((radius - depth_offset) / length_v) else base_y)\<rparr>)"

text \<open>The three entries of a cell.\<close>

definition position_at ::
  "heightmap \<Rightarrow> real \<Rightarrow> real \<Rightarrow> int \<Rightarrow> int \<Rightarrow> int \<Rightarrow> int \<Rightarrow> vec3" where
  "position_at heightmap radius max_depth H W y x =
     (let s = vars_at heightmap radius max_depth H W y x
      in (var_adjusted_x s, var_adjusted_y s, var_world_z s))"

definition uv_at :: "int \<Rightarrow> int \<Rightarrow> int \<Rightarrow> int \<Rightarrow> vec2" where
  "uv_at H W y x = (of_int x / of_int (W - 1), of_int y / of_int (H - 1))"

definition normal_at :: "int \<Rightarrow> int \<Rightarrow> vec3" where
  "normal_at W x = (cos (theta_at W x), sin (theta_at W x), 0)"

text \<open>A grid of \<open>H\<close> rows and \<open>W\<close> columns listed in row-major order.\<close>

definition grid_list :: "(int \<Rightarrow> int \<Rightarrow> 'a) \<Rightarrow> int \<Rightarrow> int \<Rightarrow> 'a list" where
  "grid_list f H W = concat (map (\<lambda>y. map (f y) (py_range W)) (py_range H))"

text \<open>The distance of a position from the cylinder's axis: the norm of \<open>(x, y)\<close>.\<close>

definition axis_distance :: "vec3 \<Rightarrow> real" where
  "axis_distance p = (case p of (px, py, pz) \<Rightarrow> sqrt (px ^ 2 + py ^ 2))"

text \<open>A grid of \<open>H\<close> rows and \<open>W\<close> columns with the same intensity \<open>v\<close> in every cell.\<close>

definition flat_grid :: "int \<Rightarrow> int \<Rightarrow> real \<Rightarrow> heightmap" where
  "flat_grid H W v = \<lparr>shape = (H, W), item = \<lambda>y x. v\<rparr>"

section \<open>Ranges and row-major lists\<close>

lemma map_int_upt: "map int [0..<k] = [0..int k - 1]"
proof (induction k)
  case 0
  show ?case by simp
next
  case (Suc k)
  have "[0..int (Suc k) - 1] = [0..int k - 1] @ [int k]"
    using upto_rec2 [of 0 "int k"] by simp
  with Suc show ?case by simp
qed

lemma py_range_upto: "py_range n = [0..n - 1]"
proof (cases "n \<le> 0")
  case True
  then show ?thesis by (simp add: py_range_def)
next
  case False
  then show ?thesis using map_int_upt [of "nat n"] by (simp add: py_range_def)
qed

lemma set_py_range: "set (py_range n) = {0..<n}"
  by (auto simp: py_range_upto)

lemma length_py_range: "length (py_range n) = nat n"
  by (simp add: py_range_def)

lemma fold_snoc_concat: "fold (\<lambda>x acc. acc @ g x) xs acc = acc @ concat (map g xs)"
  by (induction xs arbitrary: acc) simp_all

section \<open>The triangle list in closed form\<close>

lemma process_faces_closed:
  "process_faces H W =
     concat (map (\<lambda>y. concat (map (quad_faces W y) (py_range (W - 1)))) (py_range (H - 1)))
     @ concat (map (seam_faces W) (py_range (H - 1)))"
proof -
  have inner: "\<And>y. fold (\<lambda>x faces. faces @ quad_faces W y x) (py_range (W - 1))
      = (\<lambda>faces. faces @ concat (map (quad_faces W y) (py_range (W - 1))))"
    by (rule ext) (rule fold_snoc_concat)
  have "process_faces H W =
      fold (\<lambda>y faces. faces @ seam_faces W y) (py_range (H - 1))
        (fold (\<lambda>y. fold (\<lambda>x faces. faces @ quad_faces W y x) (py_range (W - 1)))
           (py_range (H - 1)) [])"
    by (simp add: process_faces_def Let_def quad_faces_def seam_faces_def)
  then show ?thesis
    by (simp only: inner fold_snoc_concat append_Nil)
qed

lemma length_quad_faces: "length (quad_faces W y x) = 2"
  by (simp add: quad_faces_def Let_def)

lemma length_seam_faces: "length (seam_faces W y) = 2"
  by (simp add: seam_faces_def Let_def)

lemma length_process_faces_gen:
  "length (process_faces H W) = 2 * nat (H - 1) * nat (W - 1) + 2 * nat (H - 1)"
  by (simp add: process_faces_closed length_concat comp_def length_quad_faces
      length_seam_faces sum_list_triv length_py_range)

lemma length_process_faces:
  assumes "1 \<le> H" and "1 \<le> W"
  shows "length (process_faces H W) = nat (2 * (H - 1) * W)"
proof -
  define h where "h = nat (H - 1)"
  define w where "w = nat (W - 1)"
  have H: "H = int h + 1" and W: "W = int w + 1"
    using assms by (simp_all add: h_def w_def)
  have "2 * (H - 1) * W = int (2 * h * w + 2 * h)"
    by (simp add: H W algebra_simps)
  then have "nat (2 * (H - 1) * W) = 2 * h * w + 2 * h"
    by (simp only: nat_int)
  then show ?thesis
    by (simp add: length_process_faces_gen h_def w_def)
qed

lemma set_process_faces:
  "set (process_faces H W) =
     (\<Union>y\<in>{0..<H - 1}. (\<Union>x\<in>{0..<W - 1}. set (quad_faces W y x)) \<union> set (seam_faces W y))"
  by (auto simp: process_faces_closed set_py_range)

lemma row_bound:
  fixes y H W :: int
  assumes "0 \<le> y" and "y + 2 \<le> H" and "0 \<le> W"
  shows "0 \<le> y * W" and "y * W + 2 * W \<le> H * W"
proof -
  show "0 \<le> y * W" using assms by simp
  have "(y + 2) * W \<le> H * W"
    using assms by (intro mult_right_mono) simp_all
  then show "y * W + 2 * W \<le> H * W" by (simp add: algebra_simps)
qed

lemma quad_faces_bounds:
  assumes "0 \<le> y" and "y < H - 1" and "0 \<le> x" and "x < W - 1"
    and "(a, b, c) \<in> set (quad_faces W y x)"
  shows "0 \<le> a \<and> a < H * W \<and> 0 \<le> b \<and> b < H * W \<and> 0 \<le> c \<and> c < H * W"
proof -
  define r where "r = y * W"
  define t where "t = H * W"
  have W: "0 \<le> W" using assms by simp
  have r: "0 \<le> r" "r + 2 * W \<le> t"
    using row_bound [of y H W] assms W by (simp_all add: r_def t_def)
  have "quad_faces W y x = [(r + x, r + x + 1, r + x + W + 1), (r + x, r + x + W + 1, r + x + W)]"
    by (simp add: quad_faces_def Let_def r_def)
  with assms(5) have "(a, b, c) = (r + x, r + x + 1, r + x + W + 1)
      \<or> (a, b, c) = (r + x, r + x + W + 1, r + x + W)"
    by simp
  with r assms(3,4) show ?thesis
    unfolding t_def [symmetric] by auto
qed

lemma seam_faces_bounds:
  assumes "0 \<le> y" and "y < H - 1" and "1 \<le> W"
    and "(a, b, c) \<in> set (seam_faces W y)"
  shows "0 \<le> a \<and> a < H * W \<and> 0 \<le> b \<and> b < H * W \<and> 0 \<le> c \<and> c < H * W"
proof -
  define r where "r = y * W"
  define t where "t = H * W"
  have r: "0 \<le> r" "r + 2 * W \<le> t"
    using row_bound [of y H W] assms by (simp_all add: r_def t_def)
  have "seam_faces W y = [(r + (W - 1), r, r + W), (r + (W - 1), r + W, r + W + (W - 1))]"
    by (simp add: seam_faces_def Let_def distrib_right r_def)
  with assms(4) have "(a, b, c) = (r + (W - 1), r, r + W)
      \<or> (a, b, c) = (r + (W - 1), r + W, r + W + (W - 1))"
    by simp
  with r assms(3) show ?thesis
    unfolding t_def [symmetric] by auto
qed

lemma process_faces_bounds:
  assumes "1 \<le> W" and "(a, b, c) \<in> set (process_faces H W)"
  shows "0 \<le> a \<and> a < H * W \<and> 0 \<le> b \<and> b < H * W \<and> 0 \<le> c \<and> c < H * W"
proof -
  from assms(2) obtain y where "y \<in> {0..<H - 1}"
    and "(a, b, c) \<in> (\<Union>x\<in>{0..<W - 1}. set (quad_faces W y x)) \<union> set (seam_faces W y)"
    unfolding set_process_faces by (rule UN_E)
  then have y: "0 \<le> y" "y < H - 1"
    and mem: "(\<exists>x. 0 \<le> x \<and> x < W - 1 \<and> (a, b, c) \<in> set (quad_faces W y x))
              \<or> (a, b, c) \<in> set (seam_faces W y)"
    by auto
  from mem show ?thesis
  proof
    assume "\<exists>x. 0 \<le> x \<and> x < W - 1 \<and> (a, b, c) \<in> set (quad_faces W y x)"
    then obtain x where "0 \<le> x" "x < W - 1" "(a, b, c) \<in> set (quad_faces W y x)"
      by blast
    with y show ?thesis by (rule quad_faces_bounds)
  next
    assume "(a, b, c) \<in> set (seam_faces W y)"
    with y assms(1) show ?thesis by (rule seam_faces_bounds)
  qed
qed

section \<open>The vertex arrays in closed form\<close>

lemma truediv_pos: "0 < b \<Longrightarrow> truediv a b = Inr (a / b)"
  by (simp add: truediv_def)

lemma truediv_nonzero_int: "n \<noteq> 1 \<Longrightarrow> truediv a (of_int (n - 1)) = Inr (a / of_int (n - 1))"
  by (simp add: truediv_def)

lemma math_sqrt_sum_squares: "math_sqrt (a ^ 2 + b ^ 2) = Inr (sqrt (a ^ 2 + b ^ 2))"
  by (simp add: math_sqrt_def not_less)

lemma cell_body_ok:
  assumes "shape heightmap = (H, W)" and "H \<noteq> 1" and "W \<noteq> 1"
    and "0 \<le> y" and "y < H" and "0 \<le> x" and "x < W"
  shows "cell_body heightmap radius max_depth H W y x =
     Inr (vars_at heightmap radius max_depth H W y x)"
proof -
  have dx: "truediv a (of_int (W - 1)) = Inr (a / of_int (W - 1))" for a
    using assms(3) by (rule truediv_nonzero_int)
  have dy: "truediv a (of_int (H - 1)) = Inr (a / of_int (H - 1))" for a
    using assms(2) by (rule truediv_nonzero_int)
  have g: "getitem heightmap y x = Inr (item heightmap y x)"
    using assms by (simp add: getitem_def)
  show ?thesis
    by (simp add: cell_body_def dx dy g math_sqrt_sum_squares truediv_pos Let_def
        vars_at_def theta_at_def world_z_at_def
        del: real_sqrt_gt_0_iff of_int_diff)
qed

lemma cell_ok:
  assumes "shape heightmap = (H, W)" and "H \<noteq> 1" and "W \<noteq> 1"
    and "0 \<le> y" and "y < H" and "0 \<le> x" and "x < W"
  shows "cell heightmap radius max_depth H W y x (vs, us, ns) =
     Inr (vs @ [position_at heightmap radius max_depth H W y x],
          us @ [uv_at H W y x],
          ns @ [normal_at W x])"
proof -
  have dx: "truediv a (of_int (W - 1)) = Inr (a / of_int (W - 1))" for a
    using assms(3) by (rule truediv_nonzero_int)
  have dy: "truediv a (of_int (H - 1)) = Inr (a / of_int (H - 1))" for a
    using assms(2) by (rule truediv_nonzero_int)
  have th: "var_theta (vars_at heightmap radius max_depth H W y x) = theta_at W x"
    by (simp add: vars_at_def Let_def)
  show ?thesis
    by (simp add: cell_def cell_body_ok [OF assms] dx dy th position_at_def Let_def
        uv_at_def normal_at_def del: of_int_diff)
qed

lemma inner_loop_ok:
  assumes "shape heightmap = (H, W)" and "H \<noteq> 1" and "W \<noteq> 1"
    and "0 \<le> y" and "y < H"
  shows "(\<forall>x\<in>set xs. 0 \<le> x \<and> x < W) \<Longrightarrow>
     inner_loop heightmap radius max_depth H W y xs (vs, us, ns) =
     Inr (vs @ map (position_at heightmap radius max_depth H W y) xs,
          us @ map (uv_at H W y) xs,
          ns @ map (normal_at W) xs)"
proof (induction xs arbitrary: vs us ns)
  case Nil
  show ?case by simp
next
  case (Cons x xs)
  then have x: "0 \<le> x" "x < W" and rest: "\<forall>x\<in>set xs. 0 \<le> x \<and> x < W"
    by simp_all
  show ?case
    by (simp add: cell_ok [OF assms x] Cons.IH [OF rest])
qed

lemma inner_loop_row:
  assumes "shape heightmap = (H, W)" and "H \<noteq> 1" and "W \<noteq> 1"
    and "0 \<le> y" and "y < H"
  shows "inner_loop heightmap radius max_depth H W y (py_range W) (vs, us, ns) =
     Inr (vs @ map (position_at heightmap radius max_depth H W y) (py_range W),
          us @ map (uv_at H W y) (py_range W),
          ns @ map (normal_at W) (py_range W))"
  by (rule inner_loop_ok [OF assms]) (simp add: set_py_range)

lemma outer_loop_ok:
  assumes "shape heightmap = (H, W)" and "H \<noteq> 1" and "W \<noteq> 1"
  shows "(\<forall>y\<in>set ys. 0 \<le> y \<and> y < H) \<Longrightarrow>
     outer_loop heightmap radius max_depth H W ys (vs, us, ns) =
     Inr (vs @ concat (map (\<lambda>y. map (position_at heightmap radius max_depth H W y) (py_range W)) ys),
          us @ concat (map (\<lambda>y. map (uv_at H W y) (py_range W)) ys),
          ns @ concat (map (\<lambda>y. map (normal_at W) (py_range W)) ys))"
proof (induction ys arbitrary: vs us ns)
  case Nil
  show ?case by simp
next
  case (Cons y ys)
  then have y: "0 \<le> y" "y < H" and rest: "\<forall>y\<in>set ys. 0 \<le> y \<and> y < H"
    by simp_all
  show ?case
    by (simp add: inner_loop_row [OF assms y] Cons.IH [OF rest])
qed

lemma process_vertices_ok:
  assumes "shape heightmap = (H, W)" and "H \<noteq> 1" and "W \<noteq> 1"
  shows "process_vertices heightmap radius max_depth =
     Inr (grid_list (position_at heightmap radius max_depth H W) H W,
          grid_list (uv_at H W) H W,
          grid_list (\<lambda>y. normal_at W) H W)"
proof -
  have "\<forall>y\<in>set (py_range H). 0 \<le> y \<and> y < H"
    by (simp add: set_py_range)
  from outer_loop_ok [OF assms this, of radius max_depth "[]" "[]" "[]"] show ?thesis
    by (simp add: process_vertices_def assms(1) grid_list_def)
qed

section \<open>Row-major indexing\<close>

lemma concat_rows_upt:
  "concat (map (\<lambda>y. map (g y) [0..<w]) [0..<h]) = map (\<lambda>i. g (i div w) (i mod w)) [0..<h * w]"
proof (induction h)
  case 0
  show ?case by simp
next
  case (Suc h)
  have split: "[0..<Suc h * w] = [0..<h * w] @ map (\<lambda>x. x + h * w) [0..<w]"
    using upt_add_eq_append [of 0 "h * w" w] map_add_upt [of "h * w" w]
    by (simp add: add.commute)
  have last_row: "map (\<lambda>i. g (i div w) (i mod w)) (map (\<lambda>x. x + h * w) [0..<w]) = map (g h) [0..<w]"
    by (rule nth_equalityI) simp_all
  show ?case
    by (simp only: upt_Suc_append le0 map_append concat_append concat.simps append_Nil2
        Suc.IH split last_row list.map if_True)
qed

lemma grid_list_map:
  "grid_list f H W =
     map (\<lambda>i. f (int (i div nat W)) (int (i mod nat W))) [0..<nat H * nat W]"
proof -
  have "grid_list f H W =
      concat (map (\<lambda>y. map (\<lambda>x. f (int y) (int x)) [0..<nat W]) [0..<nat H])"
    by (simp add: grid_list_def py_range_def comp_def)
  then show ?thesis
    by (simp only: concat_rows_upt [of "\<lambda>y x. f (int y) (int x)"])
qed

lemma length_grid_list: "length (grid_list f H W) = nat H * nat W"
  by (simp add: grid_list_map)

lemma length_grid_list_nonneg:
  "0 \<le> H \<Longrightarrow> 0 \<le> W \<Longrightarrow> length (grid_list f H W) = nat (H * W)"
  by (simp add: length_grid_list nat_mult_distrib)

lemma cell_index:
  assumes "0 \<le> y" and "y < H" and "0 \<le> x" and "x < W"
  shows "nat (y * W + x) = nat y * nat W + nat x" and "nat (y * W + x) < nat H * nat W"
proof -
  have W: "0 \<le> W" using assms by simp
  show eq: "nat (y * W + x) = nat y * nat W + nat x"
    using assms W by (simp add: nat_add_distrib nat_mult_distrib)
  have "nat y * nat W + nat x < nat y * nat W + nat W"
    using assms by simp
  also have "\<dots> = Suc (nat y) * nat W" by simp
  also have "\<dots> \<le> nat H * nat W"
    using assms by (intro mult_le_mono1) simp
  finally show "nat (y * W + x) < nat H * nat W" by (simp only: eq)
qed

lemma nth_grid_list:
  assumes "0 \<le> y" and "y < H" and "0 \<le> x" and "x < W"
  shows "grid_list f H W ! nat (y * W + x) = f y x"
proof -
  have lt: "nat x < nat W" using assms by simp
  have i: "nat (y * W + x) = nat y * nat W + nat x" and b: "nat (y * W + x) < nat H * nat W"
    using cell_index [OF assms] by simp_all
  have "grid_list f H W ! nat (y * W + x) =
      f (int (nat (y * W + x) div nat W)) (int (nat (y * W + x) mod nat W))"
    using b by (simp add: grid_list_map)
  also have "\<dots> = f y x"
    using lt assms by (simp add: i)
  finally show ?thesis .
qed

lemma set_grid_list:
  "set (grid_list f H W) = (\<Union>y\<in>{0..<H}. f y ` {0..<W})"
  by (simp add: grid_list_def set_py_range)

section \<open>The displaced position\<close>

lemma base_length: "sqrt ((r * cos t) ^ 2 + (r * sin t) ^ 2) = \<bar>r\<bar>"
proof -
  have "(r * cos t) ^ 2 + (r * sin t) ^ 2 = r ^ 2 * ((cos t) ^ 2 + (sin t) ^ 2)"
    by (simp only: power_mult_distrib distrib_left)
  also have "\<dots> = r ^ 2"
    by (simp only: sin_cos_squared_add2 mult_1_right)
  finally have "(r * cos t) ^ 2 + (r * sin t) ^ 2 = r ^ 2" .
  then show ?thesis by (simp only: real_sqrt_abs)
qed


lemma vars_at_pos:
  assumes "0 < radius"
  shows "vars_at heightmap radius max_depth H W y x =
     \<lparr>var_theta = theta_at W x, var_world_z = world_z_at H y,
      var_base_x = radius * cos (theta_at W x), var_base_y = radius * sin (theta_at W x),
      var_length = radius, var_depth_offset = item heightmap y x * max_depth,
      var_adjusted_x = (radius - item heightmap y x * max_depth) * cos (theta_at W x),
      var_adjusted_y = (radius - item heightmap y x * max_depth) * sin (theta_at W x)\<rparr>"
  using assms by (simp add: vars_at_def Let_def base_length del: real_sqrt_gt_0_iff)


lemma position_at_pos:
  assumes "0 < radius"
  shows "position_at heightmap radius max_depth H W y x =
     ((radius - item heightmap y x * max_depth) * cos (theta_at W x),
      (radius - item heightmap y x * max_depth) * sin (theta_at W x),
      world_z_at H y)"
  by (simp add: position_at_def Let_def vars_at_pos [OF assms])

lemma axis_distance_polar: "axis_distance (r * cos t, r * sin t, z) = \<bar>r\<bar>"
  by (simp add: axis_distance_def base_length)

lemma axis_distance_position_at:
  assumes "0 < radius"
  shows "axis_distance (position_at heightmap radius max_depth H W y x) =
     \<bar>radius - item heightmap y x * max_depth\<bar>"
  by (simp only: position_at_pos [OF assms] axis_distance_polar)

lemma position_at_guard:
  "position_at heightmap radius max_depth H W y x =
     (if radius = 0 then (0, 0, world_z_at H y)
      else (radius * cos (theta_at W x) * ((radius - item heightmap y x * max_depth) / \<bar>radius\<bar>),
            radius * sin (theta_at W x) * ((radius - item heightmap y x * max_depth) / \<bar>radius\<bar>),
            world_z_at H y))"
  by (simp add: position_at_def vars_at_def Let_def base_length del: real_sqrt_gt_0_iff)



section \<open>Grids on which the projector raises or returns nothing\<close>






section \<open>Grids of constant intensity\<close>

lemma shape_flat_grid: "shape (flat_grid H W v) = (H, W)"
  by (simp add: flat_grid_def)

lemma item_flat_grid: "item (flat_grid H W v) y x = v"
  by (simp add: flat_grid_def)

section \<open>Array lengths\<close>

lemma process_vertices_lengths:
  assumes "shape heightmap = (H, W)" and "2 \<le> H" and "2 \<le> W"
  shows "\<exists>vertices uvs normals.
     process_vertices heightmap radius max_depth = Inr (vertices, uvs, normals) \<and>
     length vertices = nat (H * W) \<and> length uvs = nat (H * W) \<and>
     length normals = nat (H * W)"
proof -
  have "H \<noteq> 1" "W \<noteq> 1" "0 \<le> H" "0 \<le> W" using assms by simp_all
  then show ?thesis
    by (simp add: process_vertices_ok [OF assms(1)] length_grid_list_nonneg)
qed

section \<open>The entries of the vertex arrays\<close>

lemma process_vertices_entries:
  assumes "shape heightmap = (H, W)" and "2 \<le> H" and "2 \<le> W"
  shows "\<exists>vertices uvs normals.
    process_vertices heightmap radius max_depth = Inr (vertices, uvs, normals) \<and>
    length vertices = nat (H * W) \<and>
    length uvs = nat (H * W) \<and>
    length normals = nat (H * W) \<and>
    (\<forall>y x. 0 \<le> y \<and> y < H \<and> 0 \<le> x \<and> x < W \<longrightarrow>
           nat (y * W + x) < nat (H * W) \<and>
           vertices ! nat (y * W + x) = position_at heightmap radius max_depth H W y x \<and>
           uvs ! nat (y * W + x) = uv_at H W y x \<and>
           normals ! nat (y * W + x) = normal_at W x) \<and>
    set vertices = (\<Union>y\<in>{0..<H}. position_at heightmap radius max_depth H W y ` {0..<W})"
proof -
  have ne: "H \<noteq> 1" "W \<noteq> 1" and nonneg: "0 \<le> H" "0 \<le> W"
    using assms by simp_all
  have area: "nat (H * W) = nat H * nat W"
    using nonneg by (simp add: nat_mult_distrib)
  define vs where "vs = grid_list (position_at heightmap radius max_depth H W) H W"
  define us where "us = grid_list (uv_at H W) H W"
  define ns where "ns = grid_list (\<lambda>y. normal_at W) H W"
  have ok: "process_vertices heightmap radius max_depth = Inr (vs, us, ns)"
    unfolding vs_def us_def ns_def using assms(1) ne by (rule process_vertices_ok)
  have len: "length vs = nat (H * W)" "length us = nat (H * W)" "length ns = nat (H * W)"
    by (simp_all add: vs_def us_def ns_def length_grid_list area)
  have entry: "\<forall>y x. 0 \<le> y \<and> y < H \<and> 0 \<le> x \<and> x < W \<longrightarrow>
        nat (y * W + x) < nat (H * W) \<and>
        vs ! nat (y * W + x) = position_at heightmap radius max_depth H W y x \<and>
        us ! nat (y * W + x) = uv_at H W y x \<and>
        ns ! nat (y * W + x) = normal_at W x"
  proof (intro allI impI)
    fix y x
    assume "0 \<le> y \<and> y < H \<and> 0 \<le> x \<and> x < W"
    then have c: "0 \<le> y" "y < H" "0 \<le> x" "x < W" by simp_all
    show "nat (y * W + x) < nat (H * W) \<and>
        vs ! nat (y * W + x) = position_at heightmap radius max_depth H W y x \<and>
        us ! nat (y * W + x) = uv_at H W y x \<and>
        ns ! nat (y * W + x) = normal_at W x"
      using cell_index(2) [OF c]
      by (simp add: vs_def us_def ns_def area nth_grid_list [OF c])
  qed
  have elems: "set vs = (\<Union>y\<in>{0..<H}. position_at heightmap radius max_depth H W y ` {0..<W})"
    unfolding vs_def by (rule set_grid_list)
  from ok len entry elems show ?thesis
    by (intro exI [of _ vs] exI [of _ us] exI [of _ ns] conjI)
qed

section \<open>A grid of two rows and three columns\<close>





section \<open>The first and the last column\<close>





section \<open>A negative radius\<close>


section \<open>The topology builder's triangle list\<close>

text \<open>
  Claim C2. For every \<open>H \<ge> 2\<close> and \<open>W \<ge> 2\<close>, \<open>process_faces\<close> returns exactly the
  ordered list of the specification: first, for each \<open>y\<close> in \<open>[0, H - 2]\<close> and each \<open>x\<close> in
  \<open>[0, W - 2]\<close>, row by row, the two interior triangles \<open>(v0, v1, v3)\<close> and
  \<open>(v0, v3, v2)\<close> with \<open>v0 = y * W + x\<close>, \<open>v1 = v0 + 1\<close>, \<open>v2 = v0 + W\<close>, \<open>v3 = v2 + 1\<close>, split
  along the fixed diagonal \<open>v0\<close>-\<open>v3\<close>; then, for each \<open>y\<close> in \<open>[0, H - 2]\<close>, the two seam
  triangles with \<open>v0 = y * W + (W - 1)\<close>, \<open>v1 = y * W\<close>, \<open>v2 = (y + 1) * W + (W - 1)\<close>,
  \<open>v3 = (y + 1) * W\<close>.
\<close>

theorem process_faces_ordered_list:
  assumes "2 \<le> H" and "2 \<le> W"
  shows "process_faces H W = faces_spec H W"
  by (simp add: process_faces_closed faces_spec_def py_range_upto)

text \<open>The list for three rows and two columns: two interior quads, then two seam quads.\<close>

theorem process_faces_ordered_list_witness:
  "(2::int) \<le> 3 \<and> (2::int) \<le> 2 \<and>
   process_faces 3 2 =
     [(0, 1, 3), (0, 3, 2), (2, 3, 5), (2, 5, 4),
      (1, 0, 2), (1, 2, 3), (3, 2, 4), (3, 4, 5)]"
  using process_faces_ordered_list [of 3 2]
  by (simp add: faces_spec_def quad_faces_def seam_faces_def Let_def upto_rec1)

text \<open>
  Claim C10. \<open>process_faces\<close> validates nothing and is total: it returns a triangle list
  for every pair of integers, whose length the first conjunct gives. For \<open>H < 2\<close> the
  list is empty. For \<open>W = 1\<close> and \<open>H \<ge> 2\<close> there is no interior quad, and the seam quad of
  each row \<open>y\<close> gives the degenerate triangles \<open>(y, y, y + 1)\<close>, whose first two indices
  are equal, and \<open>(y, y + 1, y + 1)\<close>.
\<close>

theorem process_faces_total:
  "length (process_faces H W) = 2 * nat (H - 1) * nat (W - 1) + 2 * nat (H - 1) \<and>
   (H < 2 \<longrightarrow> process_faces H W = []) \<and>
   (2 \<le> H \<longrightarrow>
      process_faces H 1 =
        concat (map (\<lambda>y. [(y, y, y + 1), (y, y + 1, y + 1)]) (py_range (H - 1))) \<and>
      process_faces H 1 \<noteq> [] \<and>
      (\<forall>y. 0 \<le> y \<and> y < H - 1 \<longrightarrow> (y, y, y + 1) \<in> set (process_faces H 1)))"
proof (intro conjI impI allI)
  show "length (process_faces H W) = 2 * nat (H - 1) * nat (W - 1) + 2 * nat (H - 1)"
    by (rule length_process_faces_gen)
  show "process_faces H W = []" if "H < 2"
    using that by (simp add: process_faces_closed py_range_def)
  show seam: "process_faces H 1 =
      concat (map (\<lambda>y. [(y, y, y + 1), (y, y + 1, y + 1)]) (py_range (H - 1)))"
  proof -
    have none: "py_range 0 = []"
      by (simp add: py_range_def)
    have seam: "seam_faces 1 = (\<lambda>y. [(y, y, y + 1), (y, y + 1, y + 1)])"
      by (rule ext) (simp add: seam_faces_def Let_def)
    show ?thesis
      by (simp add: process_faces_closed none seam)
  qed
  show "process_faces H 1 \<noteq> []" if "2 \<le> H"
  proof -
    have "length (process_faces H 1) = 2 * nat (H - 1)"
      by (simp add: length_process_faces_gen)
    with that show ?thesis by auto
  qed
  show "(y, y, y + 1) \<in> set (process_faces H 1)" if "0 \<le> y \<and> y < H - 1" for y
    using that by (auto simp: set_process_faces seam_faces_def Let_def)
qed

text \<open>One row, no rows, and three rows of a single column.\<close>

theorem process_faces_total_witness:
  "process_faces 1 5 = [] \<and> process_faces 0 0 = [] \<and>
   process_faces 3 1 = [(0, 0, 1), (0, 1, 1), (1, 1, 2), (1, 2, 2)]"
  using process_faces_total [of 1 5] process_faces_total [of 0 0] process_faces_total [of 3 1]
  by (simp add: py_range_upto upto_rec1)

section \<open>Counts and index ranges\<close>

text \<open>
  Claim C3. For every grid with \<open>H \<ge> 2\<close> and \<open>W \<ge> 2\<close>, \<open>process_vertices\<close> returns three
  arrays of length \<open>H * W\<close> each, and \<open>process_faces\<close> returns \<open>2 * (H - 1) * W\<close> triangles.
\<close>

theorem vertex_and_triangle_counts:
  assumes "shape heightmap = (H, W)" and "2 \<le> H" and "2 \<le> W"
  shows "(\<exists>vertices uvs normals.
       process_vertices heightmap radius max_depth = Inr (vertices, uvs, normals) \<and>
       length vertices = nat (H * W) \<and> length uvs = nat (H * W) \<and>
       length normals = nat (H * W)) \<and>
     length (process_faces H W) = nat (2 * (H - 1) * W)"
proof
  show "\<exists>vertices uvs normals.
       process_vertices heightmap radius max_depth = Inr (vertices, uvs, normals) \<and>
       length vertices = nat (H * W) \<and> length uvs = nat (H * W) \<and>
       length normals = nat (H * W)"
    using assms by (rule process_vertices_lengths)
  show "length (process_faces H W) = nat (2 * (H - 1) * W)"
    using assms by (intro length_process_faces) simp_all
qed

text \<open>The smallest valid grid, \<open>H = 2\<close> and \<open>W = 2\<close>: four vertices and four triangles.\<close>

theorem vertex_and_triangle_counts_witness:
  "shape (flat_grid 2 2 0) = (2, 2) \<and>
   (\<exists>vertices uvs normals.
      process_vertices (flat_grid 2 2 0) 1 (1 / 10) = Inr (vertices, uvs, normals) \<and>
      length vertices = 4 \<and> length uvs = 4 \<and> length normals = 4) \<and>
   length (process_faces 2 2) = 4"
  using vertex_and_triangle_counts [of "flat_grid 2 2 0" 2 2 1 "1 / 10"]
  by (simp add: shape_flat_grid)

text \<open>
  Claim C4. For every \<open>H \<ge> 2\<close> and \<open>W \<ge> 2\<close>, every index of every triangle of
  \<open>process_faces\<close> lies in \<open>[0, H * W)\<close>, so that it is a valid offset into each of the
  three arrays that \<open>process_vertices\<close> returns for a grid of the same shape.
\<close>

theorem triangle_indices_in_range:
  assumes "shape heightmap = (H, W)" and "2 \<le> H" and "2 \<le> W"
    and "(a, b, c) \<in> set (process_faces H W)"
  shows "0 \<le> a \<and> a < H * W \<and> 0 \<le> b \<and> b < H * W \<and> 0 \<le> c \<and> c < H * W \<and>
     (\<exists>vertices uvs normals.
       process_vertices heightmap radius max_depth = Inr (vertices, uvs, normals) \<and>
       nat a < length vertices \<and> nat b < length vertices \<and> nat c < length vertices \<and>
       nat a < length uvs \<and> nat b < length uvs \<and> nat c < length uvs \<and>
       nat a < length normals \<and> nat b < length normals \<and> nat c < length normals)"
proof -
  have "1 \<le> W" using assms(3) by simp
  from process_faces_bounds [OF this assms(4)]
  have idx: "0 \<le> a" "a < H * W" "0 \<le> b" "b < H * W" "0 \<le> c" "c < H * W"
    by simp_all
  then have n: "nat a < nat (H * W)" "nat b < nat (H * W)" "nat c < nat (H * W)"
    by simp_all
  from process_vertices_lengths [OF assms(1-3), of radius max_depth]
  obtain vertices uvs normals where
    "process_vertices heightmap radius max_depth = Inr (vertices, uvs, normals)"
    "length vertices = nat (H * W)" "length uvs = nat (H * W)" "length normals = nat (H * W)"
    by blast
  with idx n show ?thesis by simp
qed

text \<open>The first seam triangle of the smallest valid grid.\<close>

theorem triangle_indices_in_range_witness:
  "shape (flat_grid 2 2 0) = (2, 2) \<and> (1, 0, 2) \<in> set (process_faces 2 2) \<and>
   (\<exists>vertices uvs normals.
      process_vertices (flat_grid 2 2 0) 1 (1 / 10) = Inr (vertices, uvs, normals) \<and>
      2 < length vertices \<and> 2 < length uvs \<and> 2 < length normals)"
proof -
  have mem: "(1, 0, 2) \<in> set (process_faces 2 2)"
    by (simp add: process_faces_closed py_range_def quad_faces_def seam_faces_def Let_def)
  from triangle_indices_in_range [OF shape_flat_grid _ _ mem, of 0 1 "1 / 10"] mem
  show ?thesis
    by (auto simp: shape_flat_grid)
qed

section \<open>The projector's output, cell by cell\<close>

text \<open>
  Claim C1. For every grid with \<open>H \<ge> 2\<close> and \<open>W \<ge> 2\<close>, \<open>process_vertices\<close> returns, and
  the entries of its three arrays at the linear index \<open>y * W + x\<close> of a cell \<open>(y, x)\<close> are
  the position \<open>(baseX * scale, baseY * scale, worldZ)\<close>, the texture coordinate
  \<open>(x / (W - 1), y / (H - 1))\<close> and the normal \<open>(cos theta, sin theta, 0)\<close>, with
  \<open>theta = x * 2 * pi / (W - 1)\<close> and \<open>worldZ = y / (H - 1) * (H * PIXEL_SIZE)\<close>: the
  vertices are in row-major order. When \<open>len = 0\<close>, which needs \<open>radius = 0\<close>, the code
  does not divide and the position is the base point, the axis itself. For a positive
  radius the position is the point of the direction \<open>theta\<close> whose radial coordinate is
  \<open>radius - G[y][x] * max_depth\<close>, and that is its distance from the axis when it is not
  negative. The arithmetic is that of the real numbers.
\<close>

theorem process_vertices_cell_entries:
  assumes "shape heightmap = (H, W)" and "2 \<le> H" and "2 \<le> W"
    and "0 \<le> y" and "y < H" and "0 \<le> x" and "x < W"
  shows "\<exists>vertices uvs normals.
     process_vertices heightmap radius max_depth = Inr (vertices, uvs, normals) \<and>
     (let i = nat (y * W + x);
          theta = of_int x * (2 * pi) / of_int (W - 1);
          worldZ = of_int y / of_int (H - 1) * (of_int H * PIXEL_SIZE);
          baseX = radius * cos theta;
          baseY = radius * sin theta;
          len = sqrt (baseX ^ 2 + baseY ^ 2);
          depthOffset = item heightmap y x * max_depth;
          scale = (radius - depthOffset) / len
      in i < length vertices \<and> i < length uvs \<and> i < length normals \<and>
         vertices ! i =
           (if len = 0 then (baseX, baseY, worldZ)
            else (baseX * scale, baseY * scale, worldZ)) \<and>
         (len = 0 \<longrightarrow> baseX = 0 \<and> baseY = 0) \<and>
         uvs ! i = (of_int x / of_int (W - 1), of_int y / of_int (H - 1)) \<and>
         normals ! i = (cos theta, sin theta, 0) \<and>
         (0 < radius \<longrightarrow>
            vertices ! i =
              ((radius - depthOffset) * cos theta, (radius - depthOffset) * sin theta, worldZ)) \<and>
         (0 < radius \<and> depthOffset \<le> radius \<longrightarrow>
            axis_distance (vertices ! i) = radius - depthOffset))"
proof -
  from process_vertices_entries [OF assms(1-3), of radius max_depth]
  obtain vertices uvs normals where
    res: "process_vertices heightmap radius max_depth = Inr (vertices, uvs, normals)"
    and len: "length vertices = nat (H * W)" "length uvs = nat (H * W)"
      "length normals = nat (H * W)"
    and entry: "\<forall>y x. 0 \<le> y \<and> y < H \<and> 0 \<le> x \<and> x < W \<longrightarrow>
           nat (y * W + x) < nat (H * W) \<and>
           vertices ! nat (y * W + x) = position_at heightmap radius max_depth H W y x \<and>
           uvs ! nat (y * W + x) = uv_at H W y x \<and>
           normals ! nat (y * W + x) = normal_at W x"
    by (elim exE conjE) (rule that)
  from entry assms(4-7) have e: "nat (y * W + x) < nat (H * W)"
    "vertices ! nat (y * W + x) = position_at heightmap radius max_depth H W y x"
    "uvs ! nat (y * W + x) = uv_at H W y x"
    "normals ! nat (y * W + x) = normal_at W x"
    by simp_all
  have dist: "axis_distance (position_at heightmap radius max_depth H W y x) =
      \<bar>radius - item heightmap y x * max_depth\<bar>" if "0 < radius"
    using that by (rule axis_distance_position_at)
  have formula: "position_at heightmap radius max_depth H W y x =
      ((radius - item heightmap y x * max_depth) * cos (theta_at W x),
       (radius - item heightmap y x * max_depth) * sin (theta_at W x),
       world_z_at H y)" if "0 < radius"
    using that by (rule position_at_pos)
  show ?thesis
    unfolding Let_def
    apply (rule exI [of _ vertices], rule exI [of _ uvs], rule exI [of _ normals])
    apply (intro conjI impI)
    subgoal by (rule res)
    subgoal using e(1) by (simp only: len)
    subgoal using e(1) by (simp only: len)
    subgoal using e(1) by (simp only: len)
    subgoal
      by (simp add: e(2) position_at_guard base_length theta_at_def world_z_at_def
          del: of_int_diff)
    subgoal by (simp add: base_length)
    subgoal by (simp add: base_length)
    subgoal by (simp add: e(3) uv_at_def)
    subgoal by (simp add: e(4) normal_at_def theta_at_def)
    subgoal by (simp add: e(2) formula theta_at_def world_z_at_def del: of_int_diff)
    subgoal using dist by (simp add: e(2))
    done
qed

text \<open>
  The last cell of a grid of two rows and two columns with intensity \<open>1 / 2\<close>: for the
  radius \<open>1\<close> it lies at the angle \<open>2 * pi\<close> and at the distance \<open>19 / 20\<close> from the
  axis; for the radius \<open>0\<close> it lies on the axis.
\<close>

theorem process_vertices_cell_entries_witness:
  "(\<exists>vertices uvs normals.
      process_vertices (flat_grid 2 2 (1 / 2)) 1 (1 / 10) = Inr (vertices, uvs, normals) \<and>
      3 < length vertices \<and> vertices ! 3 = (19 / 20, 0, 19 / 500) \<and>
      uvs ! 3 = (1, 1) \<and> normals ! 3 = (1, 0, 0) \<and>
      axis_distance (vertices ! 3) = 19 / 20) \<and>
   (\<exists>vertices uvs normals.
      process_vertices (flat_grid 2 2 (1 / 2)) 0 (1 / 10) = Inr (vertices, uvs, normals) \<and>
      vertices ! 3 = (0, 0, 19 / 500))"
proof
  show "\<exists>vertices uvs normals.
      process_vertices (flat_grid 2 2 (1 / 2)) 1 (1 / 10) = Inr (vertices, uvs, normals) \<and>
      3 < length vertices \<and> vertices ! 3 = (19 / 20, 0, 19 / 500) \<and>
      uvs ! 3 = (1, 1) \<and> normals ! 3 = (1, 0, 0) \<and>
      axis_distance (vertices ! 3) = 19 / 20"
    using process_vertices_cell_entries [where heightmap = "flat_grid 2 2 (1 / 2)"
        and H = 2 and W = 2 and y = 1 and x = 1 and radius = 1 and max_depth = "1 / 10"]
    by (auto simp: shape_flat_grid item_flat_grid PIXEL_SIZE_def Let_def)
  show "\<exists>vertices uvs normals.
      process_vertices (flat_grid 2 2 (1 / 2)) 0 (1 / 10) = Inr (vertices, uvs, normals) \<and>
      vertices ! 3 = (0, 0, 19 / 500)"
    using process_vertices_cell_entries [where heightmap = "flat_grid 2 2 (1 / 2)"
        and H = 2 and W = 2 and y = 1 and x = 1 and radius = 0 and max_depth = "1 / 10"]
    by (auto simp: shape_flat_grid item_flat_grid PIXEL_SIZE_def Let_def)
qed

section \<open>The distance of the vertices from the axis\<close>



section \<open>The guard of the division by the length\<close>



section \<open>The scenario of two rows and three columns\<close>



section \<open>The seam columns\<close>




section \<open>Inputs outside the specification's preconditions\<close>




end
